theory Spec2Isabelle
  imports Complex_Main "HOL-Library.Word"
begin

section \<open>Python values of logger.py\<close>

text \<open>
  An exception is a value carrying its message (\<open>str(e)\<close>). \<open>TypeError\<close> is what Python
  raises for \<open>format(None, '04x')\<close>, \<open>'Espressif' in None\<close> and \<open>t > None\<close>;
  \<open>OSError\<close> and \<open>SerialException\<close> are what the collaborators (port enumeration,
  filesystem, serial channel) raise.
\<close>

datatype error = TypeError string | OSError string | SerialException string

fun str_of :: "error \<Rightarrow> string" where
  "str_of (TypeError m) = m"
| "str_of (OSError m) = m"
| "str_of (SerialException m) = m"

type_synonym byte = "8 word"

text \<open>Truth value testing: \<open>None\<close>, \<open>0\<close>, \<open>0.0\<close> and \<open>''\<close> are false.\<close>

definition truthy_int :: "int option \<Rightarrow> bool" where
  "truthy_int v = (case v of None \<Rightarrow> False | Some n \<Rightarrow> n \<noteq> 0)"

definition truthy_str :: "string option \<Rightarrow> bool" where
  "truthy_str v = (case v of None \<Rightarrow> False | Some s \<Rightarrow> s \<noteq> [])"

definition truthy_float :: "real option \<Rightarrow> bool" where
  "truthy_float v = (case v of None \<Rightarrow> False | Some t \<Rightarrow> t \<noteq> 0)"

text \<open>\<open>sub in s\<close> on strings: \<open>sub\<close> occurs in \<open>s\<close> as a contiguous run.\<close>

fun starts_with :: "string \<Rightarrow> string \<Rightarrow> bool" where
  "starts_with [] s = True"
| "starts_with (c # cs) [] = False"
| "starts_with (c # cs) (d # ds) = (c = d \<and> starts_with cs ds)"

fun py_in :: "string \<Rightarrow> string \<Rightarrow> bool" where
  "py_in sub [] = (sub = [])"
| "py_in sub (c # cs) = (starts_with sub (c # cs) \<or> py_in sub cs)"

text \<open>
  Digits of a natural number in a base from 2 to 16, most significant first, lower case,
  as \<open>format(n, 'x')\<close> and \<open>strftime\<close> print them.
\<close>

definition digit_char :: "nat \<Rightarrow> char" where
  "digit_char d = ''0123456789abcdef'' ! d"

function digits :: "nat \<Rightarrow> nat \<Rightarrow> string" where
  "digits b n = (if n < b \<or> b < 2 then [digit_char n]
                 else digits b (n div b) @ [digit_char (n mod b)])"
  by pat_completeness auto
termination
  by (relation "measure (\<lambda>(b, n). n)") auto

declare digits.simps [simp del]

definition zfill :: "nat \<Rightarrow> string \<Rightarrow> string" where
  "zfill w s = replicate (w - length s) CHR ''0'' @ s"

text \<open>
  \<open>format(n, '04x')\<close>: lower-case hexadecimal, zero-padded to four characters; the sign
  of a negative number counts as one of the four and comes before the zeros.
\<close>

definition format_04x :: "int \<Rightarrow> string" where
  "format_04x n = (if n < 0 then CHR ''-'' # zfill 3 (digits 16 (nat (- n)))
                   else zfill 4 (digits 16 (nat n)))"

section \<open>Configuration constants\<close>

definition VENDOR_ID :: string where
  "VENDOR_ID = ''303a''"

definition MANUFACTURER_NAME :: string where
  "MANUFACTURER_NAME = ''Espressif''"

definition LOG_DIR :: string where
  "LOG_DIR = ''/home/roman/data_logger/LOGS''"

definition ISSUE_LOG_FILE :: string where
  "ISSUE_LOG_FILE = ''/home/roman/data_logger/data_logger_issues_log.txt''"

definition SESSION_GRACE_PERIOD :: real where
  "SESSION_GRACE_PERIOD = 2"

definition POST_DISCONNECT_FLUSH_DELAY :: real where
  "POST_DISCONNECT_FLUSH_DELAY = 1"

section \<open>Device locator: \<open>find_esp32_port\<close>\<close>

text \<open>
  A port descriptor as \<open>serial.tools.list_ports\<close> gives it; \<open>vid\<close> and
  \<open>manufacturer\<close> are \<open>None\<close> for a port that is not a USB device.
\<close>

record port_info =
  device :: string
  vid :: "int option"
  manufacturer :: "string option"

text \<open>
  The two nested tests of the loop body, for given values of the two constants. The
  \<open>TypeError\<close> branches are what \<open>format\<close> and \<open>in\<close> do on \<open>None\<close>.
\<close>

definition port_matches :: "string \<Rightarrow> string \<Rightarrow> port_info \<Rightarrow> error + bool" where
  "port_matches vendor_id manufacturer_name port =
     (if truthy_int (vid port) \<and> truthy_str (manufacturer port) then
        (case vid port of
           None \<Rightarrow> Inl (TypeError ''unsupported format string passed to NoneType.__format__'')
         | Some v \<Rightarrow>
             if format_04x v = vendor_id then
               (case manufacturer port of
                  None \<Rightarrow> Inl (TypeError ''argument of type 'NoneType' is not iterable'')
                | Some m \<Rightarrow> Inr (py_in manufacturer_name m))
             else Inr False)
      else Inr False)"

fun scan_ports :: "string \<Rightarrow> string \<Rightarrow> port_info list \<Rightarrow> error + string option" where
  "scan_ports vendor_id manufacturer_name [] = Inr None"
| "scan_ports vendor_id manufacturer_name (port # ports) =
     (case port_matches vendor_id manufacturer_name port of
        Inl e \<Rightarrow> Inl e
      | Inr hit \<Rightarrow> if hit then Inr (Some (device port))
                   else scan_ports vendor_id manufacturer_name ports)"

text \<open>
  The argument is the outcome of \<open>serial.tools.list_ports.comports()\<close>: the list of
  descriptors, or the exception it raised. The function has no handler.
\<close>

definition find_esp32_port_cfg ::
  "string \<Rightarrow> string \<Rightarrow> error + port_info list \<Rightarrow> error + string option" where
  "find_esp32_port_cfg vendor_id manufacturer_name comports =
     (case comports of
        Inl e \<Rightarrow> Inl e
      | Inr ports \<Rightarrow> scan_ports vendor_id manufacturer_name ports)"

definition find_esp32_port :: "error + port_info list \<Rightarrow> error + string option" where
  "find_esp32_port = find_esp32_port_cfg VENDOR_ID MANUFACTURER_NAME"

section \<open>Clock, filesystem and console\<close>

text \<open>
  A \<open>datetime\<close> object as \<open>datetime.now()\<close> returns it, and the two \<open>strftime\<close>
  formats of the program: \<open>%Y-%m-%d %H:%M:%S\<close> for the issue log and
  \<open>%Y-%m-%d_%H-%M-%S\<close> for the log file name. Neither prints the microseconds.
\<close>

record datetime =
  year :: nat
  month :: nat
  day :: nat
  hour :: nat
  minute :: nat
  second :: nat
  microsecond :: nat

definition two :: "nat \<Rightarrow> string" where
  "two n = zfill 2 (digits 10 n)"

definition strftime_issue :: "datetime \<Rightarrow> string" where
  "strftime_issue t =
     zfill 4 (digits 10 (year t)) @ ''-'' @ two (month t) @ ''-'' @ two (day t) @ '' '' @
     two (hour t) @ '':'' @ two (minute t) @ '':'' @ two (second t)"

definition strftime_file :: "datetime \<Rightarrow> string" where
  "strftime_file t =
     zfill 4 (digits 10 (year t)) @ ''-'' @ two (month t) @ ''-'' @ two (day t) @ ''_'' @
     two (hour t) @ ''-'' @ two (minute t) @ ''-'' @ two (second t)"

text \<open>
  The part of the world the program writes: the text files by path, and the lines printed
  to standard output. Directory creation at the start of \<open>main\<close> is not modelled: whether
  a file can be opened is an input (\<open>file_open_err\<close> below).
\<close>

record world =
  files :: "string \<Rightarrow> string option"
  console :: "string list"

definition print :: "string \<Rightarrow> world \<Rightarrow> world" where
  "print line w = w\<lparr>console := console w @ [line]\<rparr>"

section \<open>\<open>log_issue\<close>\<close>

text \<open>
  \<open>issue_now\<close> is the reading of \<open>datetime.now()\<close>; \<open>issue_err\<close> is the exception
  raised by opening, writing or closing the issue log, if any. The function has no handler.
\<close>

record issue_env =
  issue_now :: datetime
  issue_err :: "error option"

definition issue_line :: "datetime \<Rightarrow> string \<Rightarrow> string" where
  "issue_line t message = ''['' @ strftime_issue t @ ''] '' @ message @ [CHR 0x0A]"

definition log_issue :: "issue_env \<Rightarrow> string \<Rightarrow> world \<Rightarrow> error option \<times> world" where
  "log_issue env message w =
     (case issue_err env of
        Some e \<Rightarrow> (Some e, w)
      | None \<Rightarrow>
          (let old = (case files w ISSUE_LOG_FILE of None \<Rightarrow> [] | Some text \<Rightarrow> text)
           in (None, w\<lparr>files := (files w)(ISSUE_LOG_FILE \<mapsto> old @ issue_line (issue_now env) message)\<rparr>)))"

section \<open>Capture loop: \<open>start_logging_session\<close>\<close>

text \<open>
  The environment of the loop is a list of snapshots, one for each evaluation of a loop
  head (the outer \<open>while True\<close> or the inner \<open>while time.time() - disconnect_time < ...\<close>),
  in the order the program reaches them:
  \<^item> \<open>path_exists\<close>: what \<open>os.path.exists(port_name)\<close> returns (outer loop);
  \<^item> \<open>clock\<close>: what \<open>time.time()\<close> returns (at detection, and at the inner loop head);
  \<^item> \<open>arrived\<close>: the bytes that reached the input buffer since the previous snapshot;
  \<^item> \<open>in_waiting_err\<close>: the exception raised by \<open>ser.in_waiting\<close> in the \<open>if\<close>;
  \<^item> \<open>read_err\<close>: the exception raised by \<open>ser.read(ser.in_waiting)\<close>;
  \<^item> \<open>write_err\<close>: the exception raised by \<open>log_file.write\<close> or \<open>log_file.flush\<close>.
  When the list ends the loop is still running.
\<close>

record snapshot =
  path_exists :: bool
  clock :: real
  arrived :: "byte list"
  in_waiting_err :: "error option"
  read_err :: "error option"
  write_err :: "error option"

text \<open>
  \<open>rx\<close> is the input buffer of the serial channel, \<open>log\<close> the text written and flushed
  to the open log file, \<open>out\<close> the lines printed by the loop.
\<close>

record session_io =
  rx :: "byte list"
  log :: string
  out :: "string list"

datatype loop_end = Returned | Raised error | Running

text \<open>
  Lines 57-60 and 64-67. \<open>dec\<close> is \<open>bytes.decode(errors='replace')\<close>, which never
  raises; the log file is a text file and receives the decoded text.
\<close>

definition drain :: "(byte list \<Rightarrow> string) \<Rightarrow> snapshot \<Rightarrow> session_io \<Rightarrow> error + session_io" where
  "drain dec sn s =
     (case in_waiting_err sn of
        Some e \<Rightarrow> Inl e
      | None \<Rightarrow>
          if length (rx s) \<noteq> 0 then
            (case read_err sn of
               Some e \<Rightarrow> Inl e
             | None \<Rightarrow>
                 (case write_err sn of
                    Some e \<Rightarrow> Inl e
                  | None \<Rightarrow> Inr (s\<lparr>rx := [], log := log s @ dec (rx s)\<rparr>)))
          else Inr s)"

fun flush_window ::
  "(byte list \<Rightarrow> string) \<Rightarrow> real \<Rightarrow> snapshot list \<Rightarrow> session_io \<Rightarrow> loop_end \<times> session_io" where
  "flush_window dec disconnect_time [] s = (Running, s)"
| "flush_window dec disconnect_time (sn # rest) s =
     (if clock sn - disconnect_time < POST_DISCONNECT_FLUSH_DELAY then
        (case drain dec sn (s\<lparr>rx := rx s @ arrived sn\<rparr>) of
           Inl e \<Rightarrow> (Raised e, s)
         | Inr s' \<Rightarrow> flush_window dec disconnect_time rest s')
      else
        (Returned, s\<lparr>out := out s @ [''[INFO] Final read window expired. Closing logging session.'']\<rparr>))"

fun capture_loop ::
  "(byte list \<Rightarrow> string) \<Rightarrow> snapshot list \<Rightarrow> session_io \<Rightarrow> loop_end \<times> session_io" where
  "capture_loop dec [] s = (Running, s)"
| "capture_loop dec (sn # rest) s =
     (if \<not> path_exists sn then
        flush_window dec (clock sn) rest
          (s\<lparr>rx := rx s @ arrived sn,
             out := out s @ [''[INFO] Device disconnected. Continuing to read for final data...'']\<rparr>)
      else
        (case drain dec sn (s\<lparr>rx := rx s @ arrived sn\<rparr>) of
           Inl e \<Rightarrow> (Raised e, s)
         | Inr s' \<Rightarrow> capture_loop dec rest s'))"

text \<open>
  One call of \<open>start_logging_session\<close>: \<open>started\<close> is the reading of \<open>datetime.now()\<close>
  on entry, \<open>serial_open_err\<close> and \<open>file_open_err\<close> the exceptions raised by
  \<open>serial.Serial(...)\<close> and \<open>open(log_filename, 'w')\<close>, which the \<open>with\<close> statement
  evaluates in this order. Closing the two handles is taken to succeed.
\<close>

record capture_env =
  started :: datetime
  serial_open_err :: "error option"
  file_open_err :: "error option"
  script :: "snapshot list"
  issue :: issue_env

definition log_filename :: "datetime \<Rightarrow> string" where
  "log_filename t = LOG_DIR @ ''/'' @ ''log_'' @ strftime_file t @ ''.txt''"

text \<open>The \<open>except Exception as e\<close> block.\<close>

definition on_exception :: "issue_env \<Rightarrow> error \<Rightarrow> world \<Rightarrow> loop_end \<times> world" where
  "on_exception env e w =
     (case log_issue env (''Error during logging session: '' @ str_of e) w of
        (Some e', w') \<Rightarrow> (Raised e', w')
      | (None, w') \<Rightarrow> (Returned, print (''[ERROR] '' @ str_of e) w'))"

definition start_logging_session ::
  "(byte list \<Rightarrow> string) \<Rightarrow> capture_env \<Rightarrow> string \<Rightarrow> world \<Rightarrow> loop_end \<times> world" where
  "start_logging_session dec env port_name w =
     (let name = log_filename (started env);
          w1 = print (''[INFO] Logging to '' @ name) w
      in case serial_open_err env of
           Some e \<Rightarrow> on_exception (issue env) e w1
         | None \<Rightarrow>
             (case file_open_err env of
                Some e \<Rightarrow> on_exception (issue env) e w1
              | None \<Rightarrow>
                  (case capture_loop dec (script env) \<lparr>rx = [], log = [], out = []\<rparr> of
                     (r, s) \<Rightarrow>
                       (let w2 = w1\<lparr>files := (files w1)(name \<mapsto> log s),
                                    console := console w1 @ out s\<rparr>
                        in case r of
                             Returned \<Rightarrow> (Returned, w2)
                           | Raised e \<Rightarrow> on_exception (issue env) e w2
                           | Running \<Rightarrow> (Running, w2)))))"

section \<open>Session controller: \<open>main\<close>\<close>

record session =
  session_active :: bool
  grace_period_end :: "real option"

text \<open>
  The environment of one pass of the \<open>while True\<close> loop of \<open>main\<close>: the outcome of
  \<open>comports()\<close>, the one reading of \<open>time.time()\<close> that the pass takes (line 84, 101 or
  103), and the environment of the capture it may start.
\<close>

record tick_env =
  comports :: "error + port_info list"
  now :: real
  capture :: capture_env

datatype outcome =
  Completed session world
| Crashed error session world
| Blocked session world

definition after_capture :: "session \<Rightarrow> loop_end \<times> world \<Rightarrow> outcome" where
  "after_capture ss r =
     (case r of
        (Returned, w) \<Rightarrow> Completed ss w
      | (Raised e, w) \<Rightarrow> Crashed e ss w
      | (Running, w) \<Rightarrow> Blocked ss w)"

text \<open>
  The branch of \<open>if port_name:\<close> (lines 84-98). The test
  \<open>grace_period_end and current_time <= grace_period_end\<close> holds for a deadline that is
  neither \<open>None\<close> nor \<open>0.0\<close> and not before the current time.
\<close>

definition device_present ::
  "(byte list \<Rightarrow> string) \<Rightarrow> tick_env \<Rightarrow> string \<Rightarrow> session \<Rightarrow> world \<Rightarrow> outcome" where
  "device_present dec env port_name ss w =
     (let current_time = now env in
      if session_active ss then
        if truthy_float (grace_period_end ss) \<and>
           (case grace_period_end ss of None \<Rightarrow> False | Some d \<Rightarrow> current_time \<le> d)
        then
          after_capture (ss\<lparr>grace_period_end := None\<rparr>)
            (start_logging_session dec (capture env) port_name
               (print ''[INFO] Device reappeared within grace period. Continuing logging session.'' w))
        else
          after_capture (ss\<lparr>session_active := True, grace_period_end := None\<rparr>)
            (start_logging_session dec (capture env) port_name
               (print ''[INFO] Device reappeared after grace period. Starting new logging session.'' w))
      else
        after_capture (ss\<lparr>session_active := True\<rparr>)
          (start_logging_session dec (capture env) port_name
             (print ''[INFO] Device detected. Starting new logging session.'' w)))"

text \<open>
  The \<open>else\<close> branch (lines 100-106). In the \<open>elif\<close>, \<open>time.time() > None\<close> would
  raise \<open>TypeError\<close>.
\<close>

definition device_absent :: "tick_env \<Rightarrow> session \<Rightarrow> world \<Rightarrow> outcome" where
  "device_absent env ss w =
     (if session_active ss \<and> grace_period_end ss = None then
        Completed (ss\<lparr>grace_period_end := Some (now env + SESSION_GRACE_PERIOD)\<rparr>)
          (print ''[INFO] Device disconnected. Starting grace period.'' w)
      else if session_active ss then
        (case grace_period_end ss of
           None \<Rightarrow> Crashed (TypeError ''> not supported between float and NoneType'') ss w
         | Some d \<Rightarrow>
             if now env > d then
               Completed (ss\<lparr>session_active := False, grace_period_end := None\<rparr>)
                 (print ''[INFO] Grace period expired. Session marked as inactive.'' w)
             else Completed ss w)
      else Completed ss w)"

text \<open>
  One pass of the loop. \<open>if port_name:\<close> holds for a device name that is neither \<open>None\<close>
  nor the empty string.
\<close>

definition tick :: "(byte list \<Rightarrow> string) \<Rightarrow> tick_env \<Rightarrow> session \<Rightarrow> world \<Rightarrow> outcome" where
  "tick dec env ss w =
     (case find_esp32_port (comports env) of
        Inl e \<Rightarrow> Crashed e ss w
      | Inr None \<Rightarrow> device_absent env ss w
      | Inr (Some port_name) \<Rightarrow>
          if port_name \<noteq> [] then device_present dec env port_name ss w
          else device_absent env ss w)"

text \<open>The loop of \<open>main\<close> over the environments of its first passes.\<close>

fun main_loop :: "(byte list \<Rightarrow> string) \<Rightarrow> tick_env list \<Rightarrow> session \<Rightarrow> world \<Rightarrow> outcome" where
  "main_loop dec [] ss w = Completed ss w"
| "main_loop dec (env # envs) ss w =
     (case tick dec env ss w of
        Completed ss' w' \<Rightarrow> main_loop dec envs ss' w'
      | Crashed e ss' w' \<Rightarrow> Crashed e ss' w'
      | Blocked ss' w' \<Rightarrow> Blocked ss' w')"

definition main :: "(byte list \<Rightarrow> string) \<Rightarrow> tick_env list \<Rightarrow> world \<Rightarrow> outcome" where
  "main dec envs w = main_loop dec envs \<lparr>session_active = False, grace_period_end = None\<rparr> w"

section \<open>Vocabulary of the specification\<close>

text \<open>
  What the controller takes for "located": \<open>find_esp32_port\<close> returned a device name
  that the test \<open>if port_name:\<close> accepts. "Not located" is a returned \<open>None\<close> or empty
  name; an enumeration that raised is neither.
\<close>

definition device_located :: "tick_env \<Rightarrow> bool" where
  "device_located env =
     (case find_esp32_port (comports env) of Inl e \<Rightarrow> False | Inr r \<Rightarrow> truthy_str r)"

definition device_not_located :: "tick_env \<Rightarrow> bool" where
  "device_not_located env =
     (case find_esp32_port (comports env) of Inl e \<Rightarrow> False | Inr r \<Rightarrow> \<not> truthy_str r)"

text \<open>The session variables after a pass that ran to its end.\<close>

fun session_of :: "outcome \<Rightarrow> session option" where
  "session_of (Completed ss w) = Some ss"
| "session_of (Crashed e ss w) = None"
| "session_of (Blocked ss w) = None"

text \<open>
  The locator as the specification words it. A hexadecimal numeral is read without regard
  to the case of its letters; the vendor identifier matches when it is the number that the
  configured constant denotes; the manufacturer matches when the configured substring
  occurs in it; the result is the device of the first descriptor matching both.
\<close>

definition hex_digit_value :: "char \<Rightarrow> nat option" where
  "hex_digit_value c = map_of (zip ''0123456789abcdefABCDEF'' ([0..<16] @ [10..<16])) c"

fun hex_value_from :: "nat \<Rightarrow> string \<Rightarrow> nat option" where
  "hex_value_from acc [] = Some acc"
| "hex_value_from acc (c # cs) =
     (case hex_digit_value c of None \<Rightarrow> None | Some d \<Rightarrow> hex_value_from (16 * acc + d) cs)"

definition hex_value :: "string \<Rightarrow> nat option" where
  "hex_value s = (if s = [] then None else hex_value_from 0 s)"

definition vendor_matches_spec :: "int \<Rightarrow> bool" where
  "vendor_matches_spec v = (map_option int (hex_value VENDOR_ID) = Some v)"

definition contains_spec :: "string \<Rightarrow> string \<Rightarrow> bool" where
  "contains_spec sub s = (\<exists>pre post. s = pre @ sub @ post)"

definition descriptor_matches :: "port_info \<Rightarrow> bool" where
  "descriptor_matches p =
     (case vid p of
        None \<Rightarrow> False
      | Some v \<Rightarrow>
          (case manufacturer p of
             None \<Rightarrow> False
           | Some m \<Rightarrow> vendor_matches_spec v \<and> contains_spec MANUFACTURER_NAME m))"

definition locate_spec :: "port_info list \<Rightarrow> string option" where
  "locate_spec ports = map_option device (List.find descriptor_matches ports)"

text \<open>While the session is inactive no deadline is set.\<close>

definition deadline_only_if_active :: "session \<Rightarrow> bool" where
  "deadline_only_if_active ss = (session_active ss \<or> grace_period_end ss = None)"

section \<open>Example inputs\<close>

definition example_decode :: "byte list \<Rightarrow> string" where
  "example_decode bs =
     map (\<lambda>b. if b = 0x41 then CHR ''A'' else if b = 0x42 then CHR ''B'' else CHR ''?'') bs"

definition example_time :: datetime where
  "example_time = \<lparr>year = 2025, month = 5, day = 18, hour = 12, minute = 0, second = 7,
                    microsecond = 250000\<rparr>"

definition empty_world :: world where
  "empty_world = \<lparr>files = Map.empty, console = []\<rparr>"

definition esp32 :: port_info where
  "esp32 = \<lparr>device = ''/dev/ttyACM0'', vid = Some 0x303a,
             manufacturer = Some ''Espressif Systems''\<rparr>"

definition builtin_uart :: port_info where
  "builtin_uart = \<lparr>device = ''/dev/ttyAMA0'', vid = None, manufacturer = None\<rparr>"

definition quiet :: snapshot where
  "quiet = \<lparr>path_exists = True, clock = 0, arrived = [], in_waiting_err = None,
             read_err = None, write_err = None\<rparr>"

text \<open>A capture in which the device is gone at once and nothing arrives or fails.\<close>

definition short_capture :: capture_env where
  "short_capture =
     \<lparr>started = example_time, serial_open_err = None, file_open_err = None,
      script = [quiet\<lparr>path_exists := False, clock := 5\<rparr>, quiet\<lparr>clock := 6\<rparr>],
      issue = \<lparr>issue_now = example_time, issue_err = None\<rparr>\<rparr>"

definition absent_at :: "real \<Rightarrow> tick_env" where
  "absent_at t = \<lparr>comports = Inr [builtin_uart], now = t, capture = short_capture\<rparr>"

definition present_at :: "real \<Rightarrow> tick_env" where
  "present_at t = \<lparr>comports = Inr [builtin_uart, esp32], now = t, capture = short_capture\<rparr>"

text \<open>
  Vocabulary for the capture loop. A snapshot is free of failures when none of its three
  operations raises, and steady when in addition the device path still exists.
\<close>

definition no_failure :: "snapshot \<Rightarrow> bool" where
  "no_failure sn = (in_waiting_err sn = None \<and> read_err sn = None \<and> write_err sn = None)"

definition steady :: "snapshot \<Rightarrow> bool" where
  "steady sn = (path_exists sn \<and> no_failure sn)"

definition past_window :: "snapshot \<Rightarrow> snapshot \<Rightarrow> bool" where
  "past_window detection sn = (\<not> clock sn - clock detection < POST_DISCONNECT_FLUSH_DELAY)"

text \<open>The text in the log file of an invocation once the invocation has ended.\<close>

definition log_file_after :: "capture_env \<Rightarrow> loop_end \<times> world \<Rightarrow> string option" where
  "log_file_after env r = files (snd r) (log_filename (started env))"



definition same_second :: "datetime \<Rightarrow> datetime \<Rightarrow> bool" where
  "same_second a b =
     (year a = year b \<and> month a = month b \<and> day a = day b \<and>
      hour a = hour b \<and> minute a = minute b \<and> second a = second b)"

text \<open>
  The invocation ended by the \<open>return\<close> of line 63: both handles opened and the loop was
  left through the flush window, not by an exception.
\<close>

definition returned_by_loop :: "(byte list \<Rightarrow> string) \<Rightarrow> capture_env \<Rightarrow> bool" where
  "returned_by_loop dec env =
     (serial_open_err env = None \<and> file_open_err env = None \<and>
      fst (capture_loop dec (script env) \<lparr>rx = [], log = [], out = []\<rparr>) = Returned)"

text \<open>The line the capture loop prints when it finds the device path gone.\<close>

definition disconnect_reported :: "world \<Rightarrow> bool" where
  "disconnect_reported w =
     (''[INFO] Device disconnected. Continuing to read for final data...'' \<in> set (console w))"


text \<open>The device vanishes with one byte buffered, and the next \<open>ser.in_waiting\<close> raises.\<close>

definition unplugged_capture :: capture_env where
  "unplugged_capture =
     short_capture\<lparr>script :=
       [quiet\<lparr>path_exists := False, clock := 5, arrived := [0x41]\<rparr>,
        quiet\<lparr>clock := 5, in_waiting_err := Some (OSError ''[Errno 5] Input/output error'')\<rparr>,
        quiet\<lparr>clock := 6\<rparr>]\<rparr>"

text \<open>The device vanishes with one byte buffered, and the clock is stepped before the next reading.\<close>

definition clock_step_capture :: capture_env where
  "clock_step_capture =
     short_capture\<lparr>script :=
       [quiet\<lparr>path_exists := False, clock := 5, arrived := [0x41]\<rparr>,
        quiet\<lparr>clock := 3600\<rparr>]\<rparr>"

text \<open>The device vanishes with one byte buffered and nothing fails.\<close>

definition flushed_capture :: capture_env where
  "flushed_capture =
     short_capture\<lparr>script :=
       [quiet\<lparr>arrived := [0x42]\<rparr>,
        quiet\<lparr>path_exists := False, clock := 5, arrived := [0x41]\<rparr>,
        quiet\<lparr>clock := 5\<rparr>,
        quiet\<lparr>clock := 6, arrived := [0x42]\<rparr>]\<rparr>"



text \<open>One byte is logged, then a read fails; the issue log is writable.\<close>

definition read_failure_capture :: capture_env where
  "read_failure_capture =
     short_capture\<lparr>script :=
       [quiet\<lparr>arrived := [0x41]\<rparr>,
        quiet\<lparr>arrived := [0x42], read_err := Some (SerialException ''device disconnected'')\<rparr>]\<rparr>"

text \<open>A later invocation within the same second whose channel cannot be opened.\<close>

definition busy_capture :: capture_env where
  "busy_capture =
     short_capture\<lparr>started := example_time\<lparr>microsecond := 900000\<rparr>,
                   serial_open_err := Some (SerialException ''could not open port'')\<rparr>"

text \<open>A later invocation within the same second that logs one byte and ends normally.\<close>

definition second_capture :: capture_env where
  "second_capture =
     short_capture\<lparr>started := example_time\<lparr>microsecond := 900000\<rparr>,
                   script := [quiet\<lparr>arrived := [0x42]\<rparr>,
                              quiet\<lparr>path_exists := False, clock := 5\<rparr>,
                              quiet\<lparr>clock := 7\<rparr>]\<rparr>"

text \<open>The device vanishes with one byte buffered, and the next \<open>ser.read\<close> raises.\<close>

definition unplugged_read_capture :: capture_env where
  "unplugged_read_capture =
     short_capture\<lparr>script :=
       [quiet\<lparr>path_exists := False, clock := 5, arrived := [0x41]\<rparr>,
        quiet\<lparr>clock := 5, read_err := Some (SerialException ''device reports readiness to read but returned no data'')\<rparr>,
        quiet\<lparr>clock := 6\<rparr>]\<rparr>"


section \<open>Lemmas on the locator\<close>

lemma upt_0_16: "[0..<16] = [0,1,2,3,4,5,6,7,8,9,10,11,12,13,14,15]"
  by (simp add: upt_rec)

lemma upt_10_16: "[10..<16] = [10,11,12,13,14,15]"
  by (simp add: upt_rec)

lemmas hex_digit_eval = hex_digit_value_def upt_0_16 upt_10_16

lemma hex_value_const: "hex_value ''303a'' = Some 12346"
  by (simp add: hex_value_def hex_digit_eval)

lemma below_16: "d < 16 \<Longrightarrow> d \<in> {0,1,2,3,4,5,6,7,8,9,10,11,12,13,14,15::nat}"
  by simp arith

lemma hex_digit_roundtrip: "d < 16 \<Longrightarrow> hex_digit_value (digit_char d) = Some d"
  by (drule below_16) (auto simp: hex_digit_eval digit_char_def)

lemma hex_value_from_append:
  "hex_value_from acc (xs @ ys) =
     (case hex_value_from acc xs of None \<Rightarrow> None | Some a \<Rightarrow> hex_value_from a ys)"
  by (induction xs arbitrary: acc) (auto split: option.splits)

lemma hex_value_from_digits:
  "hex_value_from acc (digits 16 n) = Some (acc * 16 ^ length (digits 16 n) + n)"
proof (induction "16::nat" n arbitrary: acc rule: digits.induct)
  case (1 n)
  show ?case
  proof (cases "n < 16")
    case True
    then show ?thesis
      by (subst digits.simps, subst (2) digits.simps) (simp add: hex_digit_roundtrip)
  next
    case False
    have m: "n mod 16 < 16" by simp
    from False 1
    have ih: "hex_value_from acc (digits 16 (n div 16)) =
                Some (acc * 16 ^ length (digits 16 (n div 16)) + n div 16)"
      by simp
    show ?thesis
      using False
      by (subst digits.simps, subst (2) digits.simps)
         (simp add: hex_value_from_append ih hex_digit_roundtrip[OF m] algebra_simps)
  qed
qed

lemma hex_value_from_zeros: "hex_value_from 0 (replicate k CHR ''0'' @ s) = hex_value_from 0 s"
  by (induction k) (auto simp: hex_digit_eval)

lemma digits_nonempty: "digits b n \<noteq> []"
  by (subst digits.simps) simp

text \<open>Reading back what \<open>format(v, '04x')\<close> printed gives \<open>v\<close>.\<close>

lemma hex_value_format: "0 \<le> v \<Longrightarrow> hex_value (format_04x v) = Some (nat v)"
  using hex_value_from_digits[of 0 "nat v"]
  by (simp add: hex_value_def format_04x_def zfill_def hex_value_from_zeros digits_nonempty)

lemma format_const: "format_04x 12346 = ''303a''"
  by (simp add: format_04x_def zfill_def digit_char_def digits.simps)

lemma format_is_vendor_id: "format_04x v = VENDOR_ID \<longleftrightarrow> v = 12346"
proof
  assume a: "format_04x v = VENDOR_ID"
  show "v = 12346"
  proof (cases "v < 0")
    case True
    with a show ?thesis by (simp add: VENDOR_ID_def format_04x_def)
  next
    case False
    then have "hex_value (format_04x v) = Some (nat v)" by (simp add: hex_value_format)
    with a have "nat v = 12346" by (simp add: VENDOR_ID_def hex_value_const)
    with False show ?thesis by simp
  qed
next
  assume "v = 12346"
  then show "format_04x v = VENDOR_ID" by (simp add: format_const VENDOR_ID_def)
qed

lemma vendor_matches_spec_iff: "vendor_matches_spec v \<longleftrightarrow> v = 12346"
  by (auto simp: vendor_matches_spec_def VENDOR_ID_def hex_value_const)

lemma starts_with_iff: "starts_with sub s \<longleftrightarrow> (\<exists>post. s = sub @ post)"
  by (induction sub s rule: starts_with.induct) auto

lemma py_in_iff: "py_in sub s \<longleftrightarrow> contains_spec sub s"
  unfolding contains_spec_def
proof (induction s)
  case Nil
  then show ?case by auto
next
  case (Cons c cs)
  show ?case
  proof
    assume "py_in sub (c # cs)"
    then consider "starts_with sub (c # cs)" | "py_in sub cs" by auto
    then show "\<exists>pre post. c # cs = pre @ sub @ post"
    proof cases
      case 1
      then obtain post where "c # cs = sub @ post" by (auto simp: starts_with_iff)
      then have "c # cs = [] @ sub @ post" by simp
      then show ?thesis by blast
    next
      case 2
      with Cons obtain pre post where "cs = pre @ sub @ post" by auto
      then have "c # cs = (c # pre) @ sub @ post" by simp
      then show ?thesis by blast
    qed
  next
    assume "\<exists>pre post. c # cs = pre @ sub @ post"
    then obtain pre post where e: "c # cs = pre @ sub @ post" by auto
    show "py_in sub (c # cs)"
    proof (cases pre)
      case Nil
      with e have "starts_with sub (c # cs)" by (auto simp: starts_with_iff)
      then show ?thesis by simp
    next
      case (Cons a pre')
      with e have "cs = pre' @ sub @ post" by simp
      with Cons.IH have "py_in sub cs" by blast
      then show ?thesis by simp
    qed
  qed
qed

lemma port_matches_spec:
  "port_matches VENDOR_ID MANUFACTURER_NAME p = Inr (descriptor_matches p)"
proof (cases "vid p")
  case None
  then show ?thesis by (simp add: port_matches_def descriptor_matches_def truthy_int_def)
next
  case v: (Some v)
  show ?thesis
  proof (cases "manufacturer p")
    case None
    with v show ?thesis
      by (simp add: port_matches_def descriptor_matches_def truthy_str_def)
  next
    case m: (Some m)
    have empty: "m = [] \<Longrightarrow> \<not> py_in MANUFACTURER_NAME m"
      by (simp add: MANUFACTURER_NAME_def)
    from v m empty show ?thesis
      by (auto simp: port_matches_def descriptor_matches_def truthy_int_def truthy_str_def
            format_is_vendor_id vendor_matches_spec_iff py_in_iff [symmetric])
  qed
qed

lemma scan_ports_spec: "scan_ports VENDOR_ID MANUFACTURER_NAME ports = Inr (locate_spec ports)"
  by (induction ports) (simp_all add: locate_spec_def port_matches_spec)

lemma port_matches_total: "\<exists>b. port_matches vn mn p = Inr b"
  by (auto simp: port_matches_def truthy_int_def truthy_str_def split: option.splits)

lemma scan_ports_total: "\<exists>r. scan_ports vn mn ports = Inr r"
proof (induction ports)
  case Nil
  then show ?case by simp
next
  case (Cons p ports)
  obtain b where "port_matches vn mn p = Inr b" using port_matches_total by blast
  with Cons show ?case by simp
qed

lemma scan_ports_skip:
  "port_matches vn mn p = Inr False \<Longrightarrow>
   scan_ports vn mn (pre @ p # post) = scan_ports vn mn (pre @ post)"
  by (induction pre) (simp_all split: sum.splits)

lemma scan_ports_device:
  "scan_ports vn mn ports = Inr (Some d) \<Longrightarrow> d \<in> device ` set ports"
  by (induction ports) (auto split: sum.splits if_splits)

lemma falsy_port_no_match:
  "\<not> truthy_int (vid p) \<or> \<not> truthy_str (manufacturer p) \<Longrightarrow> port_matches vn mn p = Inr False"
  by (auto simp: port_matches_def)

section \<open>The locator\<close>

text \<open>
  C3. For every list of descriptors that the enumeration returns, \<open>find_esp32_port\<close>
  returns the device of the first descriptor whose vendor identifier is the number the
  configured constant denotes in hexadecimal (letter case disregarded) and whose
  manufacturer string contains the configured substring, and \<open>None\<close> when there is none.
\<close>

theorem C3_locate_first_match: "find_esp32_port (Inr ports) = Inr (locate_spec ports)"
  by (simp add: find_esp32_port_def find_esp32_port_cfg_def scan_ports_spec)

theorem C3_locate_first_match_witness:
  "find_esp32_port (Inr [builtin_uart, esp32]) = Inr (Some ''/dev/ttyACM0'') \<and>
   locate_spec [builtin_uart, esp32] = Some ''/dev/ttyACM0''"
  using C3_locate_first_match [of "[builtin_uart, esp32]"]
  by (simp add: locate_spec_def descriptor_matches_def builtin_uart_def esp32_def
        vendor_matches_spec_iff py_in_iff [symmetric] MANUFACTURER_NAME_def)

text \<open>
  C9. A descriptor whose vendor identifier is \<open>None\<close> or zero, or whose manufacturer is
  \<open>None\<close> (or empty), is skipped whatever the two configured constants are: the call
  raises nothing, its result is that of the enumeration without the descriptor, and so it
  is not the descriptor's device unless another descriptor carries the same device.
\<close>

theorem C9_skips_incomplete_descriptor:
  assumes "\<not> truthy_int (vid p) \<or> \<not> truthy_str (manufacturer p)"
  shows "find_esp32_port_cfg vn mn (Inr (pre @ p # post)) =
           find_esp32_port_cfg vn mn (Inr (pre @ post)) \<and>
         (\<exists>r. find_esp32_port_cfg vn mn (Inr (pre @ p # post)) = Inr r) \<and>
         (device p \<notin> device ` set (pre @ post) \<longrightarrow>
           find_esp32_port_cfg vn mn (Inr (pre @ p # post)) \<noteq> Inr (Some (device p)))"
proof -
  from assms have no: "port_matches vn mn p = Inr False" by (rule falsy_port_no_match)
  then have skip: "find_esp32_port_cfg vn mn (Inr (pre @ p # post)) =
                    find_esp32_port_cfg vn mn (Inr (pre @ post))"
    by (simp add: find_esp32_port_cfg_def scan_ports_skip)
  have total: "\<exists>r. find_esp32_port_cfg vn mn (Inr (pre @ p # post)) = Inr r"
    by (simp add: find_esp32_port_cfg_def scan_ports_total)
  have fresh: "find_esp32_port_cfg vn mn (Inr (pre @ p # post)) \<noteq> Inr (Some (device p))"
    if "device p \<notin> device ` set (pre @ post)"
  proof
    assume "find_esp32_port_cfg vn mn (Inr (pre @ p # post)) = Inr (Some (device p))"
    with skip have "scan_ports vn mn (pre @ post) = Inr (Some (device p))"
      by (simp add: find_esp32_port_cfg_def)
    then have "device p \<in> device ` set (pre @ post)" by (rule scan_ports_device)
    with that show False by contradiction
  qed
  from skip total fresh show ?thesis by blast
qed

theorem C9_skips_incomplete_descriptor_witness:
  "\<not> truthy_int (vid (esp32\<lparr>vid := Some 0\<rparr>)) \<and>
   find_esp32_port_cfg ''0000'' ''Espressif'' (Inr ([builtin_uart] @ esp32\<lparr>vid := Some 0\<rparr> # [])) =
     find_esp32_port_cfg ''0000'' ''Espressif'' (Inr ([builtin_uart] @ [])) \<and>
   find_esp32_port_cfg ''0000'' ''Espressif'' (Inr ([builtin_uart] @ esp32\<lparr>vid := Some 0\<rparr> # [])) =
     Inr None \<and>
   format_04x 0 = ''0000'' \<and> py_in ''Espressif'' ''Espressif Systems''"
proof -
  have h: "\<not> truthy_int (vid (esp32\<lparr>vid := Some 0\<rparr>)) \<or>
           \<not> truthy_str (manufacturer (esp32\<lparr>vid := Some 0\<rparr>))"
    by (simp add: truthy_int_def)
  have f: "format_04x 0 = ''0000''"
    by (simp add: format_04x_def zfill_def digit_char_def digits.simps eval_nat_numeral)
  have "find_esp32_port_cfg ''0000'' ''Espressif'' (Inr ([builtin_uart] @ [])) = Inr None"
    by (simp add: find_esp32_port_cfg_def port_matches_def builtin_uart_def truthy_int_def)
  with h f C9_skips_incomplete_descriptor [OF h, of "''0000''" "''Espressif''" "[builtin_uart]" "[]",
      THEN conjunct1]
  show ?thesis by (simp add: truthy_int_def)
qed

text \<open>
  C4, as the code has it. When the enumeration raises, \<open>find_esp32_port\<close> raises the same
  exception, and the pass of the controller loop that called it ends with that exception,
  the session variables and the files untouched: nothing treats the failure as "no device".
\<close>

theorem C4_enumeration_error_propagates:
  "find_esp32_port (Inl e) = Inl e \<and> tick dec (env\<lparr>comports := Inl e\<rparr>) ss w = Crashed e ss w"
  by (simp add: find_esp32_port_def find_esp32_port_cfg_def tick_def)

theorem C4_enumeration_error_counterexample:
  "find_esp32_port (Inl (OSError ''[Errno 2] No such file or directory'')) \<noteq> find_esp32_port (Inr []) \<and>
   find_esp32_port (Inl (OSError ''[Errno 2] No such file or directory'')) =
     Inl (OSError ''[Errno 2] No such file or directory'') \<and>
   find_esp32_port (Inr []) = Inr None"
  by (simp add: find_esp32_port_def find_esp32_port_cfg_def)

section \<open>Lemmas on the controller\<close>

lemma tick_absent: "device_not_located env \<Longrightarrow> tick dec env ss w = device_absent env ss w"
  by (auto simp: device_not_located_def tick_def truthy_str_def split: sum.splits option.splits)

lemma tick_present:
  "device_located env \<Longrightarrow>
   \<exists>port_name. tick dec env ss w = device_present dec env port_name ss w"
  by (auto simp: device_located_def tick_def truthy_str_def split: sum.splits option.splits)

lemma tick_completed_cases:
  "tick dec env ss w = Completed ss' w' \<Longrightarrow> device_located env \<or> device_not_located env"
  by (auto simp: device_located_def device_not_located_def tick_def split: sum.splits)

lemma located_exclusive: "device_located env \<Longrightarrow> \<not> device_not_located env"
  by (auto simp: device_located_def device_not_located_def split: sum.splits)

lemma after_capture_completed:
  "after_capture ss r = Completed ss' w' \<Longrightarrow> ss' = ss"
  by (cases r) (auto simp: after_capture_def split: loop_end.splits)

lemma after_capture_returned:
  "fst r = Returned \<Longrightarrow> after_capture ss r = Completed ss (snd r)"
  by (cases r) (simp add: after_capture_def)

lemma device_present_session:
  "device_present dec env port_name ss w = Completed ss' w' \<Longrightarrow>
   ss' = ss\<lparr>session_active := True, grace_period_end := None\<rparr> \<or>
   (ss' = ss\<lparr>session_active := True\<rparr> \<and> \<not> session_active ss)"
  by (auto simp: device_present_def Let_def split: if_splits dest!: after_capture_completed)

lemma main_loop_snoc:
  "main_loop dec (envs @ [env]) ss w =
     (case main_loop dec envs ss w of
        Completed ss' w' \<Rightarrow> tick dec env ss' w'
      | Crashed e ss' w' \<Rightarrow> Crashed e ss' w'
      | Blocked ss' w' \<Rightarrow> Blocked ss' w')"
proof (induction envs arbitrary: ss w)
  case Nil
  show ?case by (cases "tick dec env ss w") simp_all
next
  case (Cons a envs)
  then show ?case by (cases "tick dec a ss w") simp_all
qed


lemma tick_keeps_invariant:
  assumes "tick dec env ss w = Completed ss' w'" and "deadline_only_if_active ss"
  shows "deadline_only_if_active ss'"
    and "(grace_period_end ss' \<noteq> None) = (session_active ss' \<and> \<not> device_located env)"
proof -
  from assms(1) consider (present) "device_located env" | (absent) "device_not_located env"
    using tick_completed_cases by blast
  then have "deadline_only_if_active ss' \<and>
             ((grace_period_end ss' \<noteq> None) = (session_active ss' \<and> \<not> device_located env))"
  proof cases
    case present
    then obtain port_name where "tick dec env ss w = device_present dec env port_name ss w"
      using tick_present by blast
    with assms(1) have "device_present dec env port_name ss w = Completed ss' w'" by simp
    from device_present_session [OF this] assms(2) present show ?thesis
      by (auto simp: deadline_only_if_active_def)
  next
    case absent
    then have "\<not> device_located env" using located_exclusive by blast
    moreover from absent assms(1) have "device_absent env ss w = Completed ss' w'"
      by (simp add: tick_absent)
    ultimately show ?thesis
      using assms(2)
      by (auto simp: device_absent_def deadline_only_if_active_def
            split: if_splits option.splits)
  qed
  then show "deadline_only_if_active ss'"
    and "(grace_period_end ss' \<noteq> None) = (session_active ss' \<and> \<not> device_located env)"
    by simp_all
qed

lemma main_loop_keeps_invariant:
  "main_loop dec envs ss w = Completed ss' w' \<Longrightarrow> deadline_only_if_active ss \<Longrightarrow>
   deadline_only_if_active ss'"
proof (induction envs arbitrary: ss w)
  case Nil
  then show ?case by simp
next
  case (Cons a envs)
  then show ?case
    by (cases "tick dec a ss w") (auto dest: tick_keeps_invariant(1))
qed

lemma waiting_ticks:
  assumes "session_active ss" and "grace_period_end ss = Some d"
    and "\<forall>env \<in> set envs. device_not_located env \<and> now env \<le> d"
  shows "main_loop dec envs ss w = Completed ss w"
  using assms(3)
proof (induction envs)
  case Nil
  show ?case by simp
next
  case (Cons a envs)
  then have "tick dec a ss w = Completed ss w"
    using assms(1,2) by (simp add: tick_absent device_absent_def)
  with Cons show ?case by simp
qed

lemma example_comports:
  "find_esp32_port (Inr [builtin_uart]) = Inr None"
  "find_esp32_port (Inr [builtin_uart, esp32]) = Inr (Some ''/dev/ttyACM0'')"
  by (simp_all add: find_esp32_port_def find_esp32_port_cfg_def port_matches_def
        builtin_uart_def esp32_def truthy_int_def truthy_str_def format_const
        VENDOR_ID_def MANUFACTURER_NAME_def)

lemma absent_at_not_located: "device_not_located (absent_at t)"
  by (simp add: device_not_located_def absent_at_def example_comports truthy_str_def)

lemma absent_at_now: "now (absent_at t) = t"
  by (simp add: absent_at_def)

section \<open>The session controller\<close>

text \<open>
  C1. In a pass of the controller loop in which the session is active, the device is not
  located and no deadline is set, the deadline becomes the clock reading of the pass plus
  \<open>SESSION_GRACE_PERIOD\<close>; \<open>session_active\<close> and the files stay as they were, and one
  line is printed.
\<close>

theorem C1_grace_deadline_set:
  assumes "session_active ss" and "device_not_located env" and "grace_period_end ss = None"
  shows "tick dec env ss w =
           Completed (ss\<lparr>grace_period_end := Some (now env + SESSION_GRACE_PERIOD)\<rparr>)
             (print ''[INFO] Device disconnected. Starting grace period.'' w)"
  using assms by (simp add: tick_absent device_absent_def)

theorem C1_grace_deadline_set_witness:
  "session_active \<lparr>session_active = True, grace_period_end = None\<rparr> \<and>
   device_not_located (absent_at 10) \<and>
   tick example_decode (absent_at 10) \<lparr>session_active = True, grace_period_end = None\<rparr> empty_world =
     Completed \<lparr>session_active = True, grace_period_end = Some 12\<rparr>
       (print ''[INFO] Device disconnected. Starting grace period.'' empty_world)"
  using C1_grace_deadline_set [of "\<lparr>session_active = True, grace_period_end = None\<rparr>"
      "absent_at 10" example_decode empty_world]
  by (simp add: absent_at_not_located absent_at_now SESSION_GRACE_PERIOD_def)

text \<open>
  C2. Let the session be active with deadline \<open>d\<close>, and let the device stay not located.
  After every pass whose clock reading, like those of the passes before it, is at most
  \<open>d\<close>, the session is still active with the same deadline; the first pass whose clock
  reading exceeds \<open>d\<close> marks it inactive and clears the deadline.
\<close>

theorem C2_expires_at_first_late_tick:
  assumes "session_active ss" and "grace_period_end ss = Some d"
    and "\<forall>env \<in> set early. device_not_located env \<and> now env \<le> d"
    and "device_not_located late" and "now late > d"
  shows "(\<forall>n \<le> length early. session_of (main_loop dec (take n early) ss w) = Some ss) \<and>
         session_of (main_loop dec (early @ [late]) ss w) =
           Some (ss\<lparr>session_active := False, grace_period_end := None\<rparr>)"
proof -
  have waiting: "\<forall>n \<le> length early. session_of (main_loop dec (take n early) ss w) = Some ss"
  proof (intro allI impI)
    fix n
    from assms(3) have "\<forall>env \<in> set (take n early). device_not_located env \<and> now env \<le> d"
      by (meson in_set_takeD)
    with assms(1,2) have "main_loop dec (take n early) ss w = Completed ss w"
      by (rule waiting_ticks)
    then show "session_of (main_loop dec (take n early) ss w) = Some ss" by simp
  qed
  from assms(1,2,3) have "main_loop dec early ss w = Completed ss w"
    by (rule waiting_ticks)
  then have expired: "session_of (main_loop dec (early @ [late]) ss w) =
               Some (ss\<lparr>session_active := False, grace_period_end := None\<rparr>)"
    using assms(1,2,4,5) by (simp add: main_loop_snoc tick_absent device_absent_def)
  from waiting expired show ?thesis by (rule conjI)
qed

theorem C2_expires_at_first_late_tick_witness:
  "session_of (main_loop example_decode ([absent_at 11, absent_at 12] @ [absent_at (25/2)])
     \<lparr>session_active = True, grace_period_end = Some 12\<rparr> empty_world) =
     Some \<lparr>session_active = False, grace_period_end = None\<rparr> \<and>
   session_of (main_loop example_decode (take 2 [absent_at 11, absent_at 12])
     \<lparr>session_active = True, grace_period_end = Some 12\<rparr> empty_world) =
     Some \<lparr>session_active = True, grace_period_end = Some 12\<rparr>"
proof -
  let ?ss = "\<lparr>session_active = True, grace_period_end = Some (12::real)\<rparr>"
  have a: "session_active ?ss" and b: "grace_period_end ?ss = Some 12" by simp_all
  have c: "\<forall>env \<in> set [absent_at 11, absent_at 12]. device_not_located env \<and> now env \<le> 12"
    by (simp add: absent_at_not_located absent_at_now)
  have d: "device_not_located (absent_at (25/2))" by (rule absent_at_not_located)
  have e: "now (absent_at (25/2)) > 12" by (simp add: absent_at_now)
  note both = C2_expires_at_first_late_tick [OF a b c d e, of example_decode empty_world]
  from both [THEN conjunct1, rule_format, of 2] both [THEN conjunct2]
  show ?thesis by simp
qed

text \<open>The loop returns only from the flush window, which it enters on finding the path gone.\<close>

lemma capture_loop_returned_gone:
  "fst (capture_loop dec xs s) = Returned \<Longrightarrow> \<exists>sn \<in> set xs. \<not> path_exists sn"
proof (induction xs arbitrary: s)
  case Nil
  then show ?case by simp
next
  case (Cons sn xs)
  show ?case
  proof (cases "path_exists sn")
    case False
    then show ?thesis by simp
  next
    case True
    show ?thesis
    proof (cases "drain dec sn (s\<lparr>rx := rx s @ arrived sn\<rparr>)")
      case (Inl e)
      with True Cons.prems show ?thesis by simp
    next
      case (Inr s')
      with True Cons.prems have "fst (capture_loop dec xs s') = Returned" by simp
      from Cons.IH [OF this] show ?thesis by simp
    qed
  qed
qed

lemma tick_located_session:
  assumes "tick dec env ss w = Completed ss' w'" and "device_located env"
  shows "session_active ss'"
proof -
  from assms(2) obtain port_name where
    "tick dec env ss w = device_present dec env port_name ss w"
    using tick_present by blast
  with assms(1) have "device_present dec env port_name ss w = Completed ss' w'" by simp
  from device_present_session [OF this] show ?thesis by auto
qed

text \<open>
  C8, as the code has it. After every pass of the controller loop that ran to its end,
  counted from the start of \<open>main\<close>, the deadline is set if and only if the session is
  active and the call of \<open>find_esp32_port\<close> in that pass did not locate the device. A pass
  that located the device ran a capture; after it the session is active and no deadline
  is set, also when the capture returned from its loop, which it does only after it found
  the device path gone. So the deadline follows the result of the locator at the start of
  the pass, not the presence of the device at its end.
\<close>

theorem C8_deadline_iff_active_and_absent:
  assumes "main dec (envs @ [env]) w = Completed ss' w'"
  shows "((grace_period_end ss' \<noteq> None) = (session_active ss' \<and> \<not> device_located env)) \<and>
         (device_located env \<longrightarrow>
            session_active ss' \<and> grace_period_end ss' = None \<and>
            (returned_by_loop dec (capture env) \<longrightarrow>
               (\<exists>sn \<in> set (script (capture env)). \<not> path_exists sn)))"
proof -
  let ?init = "\<lparr>session_active = False, grace_period_end = None\<rparr>"
  from assms obtain ss1 w1 where
    before: "main_loop dec envs ?init w = Completed ss1 w1" and
    last: "tick dec env ss1 w1 = Completed ss' w'"
    by (auto simp: main_def main_loop_snoc split: outcome.splits)
  have "deadline_only_if_active ?init" by (simp add: deadline_only_if_active_def)
  with before have "deadline_only_if_active ss1" by (rule main_loop_keeps_invariant)
  with last have iff: "(grace_period_end ss' \<noteq> None) = (session_active ss' \<and> \<not> device_located env)"
    by (rule tick_keeps_invariant(2))
  have active: "session_active ss'" if "device_located env"
    using last that by (rule tick_located_session)
  have gone: "\<exists>sn \<in> set (script (capture env)). \<not> path_exists sn"
    if "returned_by_loop dec (capture env)"
  proof -
    from that have "fst (capture_loop dec (script (capture env))
                      \<lparr>rx = [], log = [], out = []\<rparr>) = Returned"
      by (simp add: returned_by_loop_def)
    then show ?thesis by (rule capture_loop_returned_gone)
  qed
  from iff active gone show ?thesis by blast
qed

theorem C8_deadline_iff_active_and_absent_witness:
  "session_of (main example_decode ([present_at 0] @ [absent_at 7]) empty_world) =
     Some \<lparr>session_active = True, grace_period_end = Some 9\<rparr> \<and>
   \<not> device_located (absent_at 7) \<and>
   device_located (present_at 0) \<and>
   returned_by_loop example_decode (capture (present_at 0)) \<and>
   session_of (main example_decode ([] @ [present_at 0]) empty_world) =
     Some \<lparr>session_active = True, grace_period_end = None\<rparr> \<and>
   (\<exists>sn \<in> set (script (capture (present_at 0))). \<not> path_exists sn)"
proof -
  let ?w = "snd (start_logging_session example_decode short_capture ''/dev/ttyACM0''
          (print ''[INFO] Device detected. Starting new logging session.'' empty_world))"
  have returned: "fst (start_logging_session example_decode short_capture ''/dev/ttyACM0''
          (print ''[INFO] Device detected. Starting new logging session.'' empty_world)) = Returned"
    by (simp add: start_logging_session_def short_capture_def quiet_def Let_def drain_def
          POST_DISCONNECT_FLUSH_DELAY_def)
  have first: "tick example_decode (present_at 0) \<lparr>session_active = False, grace_period_end = None\<rparr>
                 empty_world = Completed \<lparr>session_active = True, grace_period_end = None\<rparr> ?w"
    by (simp add: tick_def present_at_def example_comports device_present_def
          after_capture_returned [OF returned])
  have second: "tick example_decode (absent_at 7) \<lparr>session_active = True, grace_period_end = None\<rparr> ?w =
                  Completed \<lparr>session_active = True, grace_period_end = Some 9\<rparr>
                    (?w\<lparr>console := console ?w @ [''[INFO] Device disconnected. Starting grace period.'']\<rparr>)"
    by (simp add: tick_absent absent_at_not_located device_absent_def absent_at_now
          SESSION_GRACE_PERIOD_def print_def)
  have run: "main example_decode ([present_at 0] @ [absent_at 7]) empty_world =
               Completed \<lparr>session_active = True, grace_period_end = Some 9\<rparr>
                 (?w\<lparr>console := console ?w @ [''[INFO] Device disconnected. Starting grace period.'']\<rparr>)"
    by (simp add: main_def first second)
  have run1: "main example_decode ([] @ [present_at 0]) empty_world =
                Completed \<lparr>session_active = True, grace_period_end = None\<rparr> ?w"
    by (simp add: main_def first)
  have located: "device_located (present_at 0)"
    by (simp add: device_located_def present_at_def example_comports truthy_str_def)
  have loop: "returned_by_loop example_decode (capture (present_at 0))"
    by (simp add: returned_by_loop_def present_at_def short_capture_def quiet_def drain_def
          POST_DISCONNECT_FLUSH_DELAY_def)
  from C8_deadline_iff_active_and_absent [OF run, THEN conjunct1]
    C8_deadline_iff_active_and_absent [OF run1, THEN conjunct2, rule_format, OF located,
      THEN conjunct2, THEN conjunct2, rule_format, OF loop]
    run run1 located loop
  show ?thesis by simp
qed

theorem C8_deadline_unset_after_capture_counterexample:
  "device_located (present_at 0) \<and>
   returned_by_loop example_decode (capture (present_at 0)) \<and>
   (\<exists>w'. main example_decode [present_at 0] empty_world =
            Completed \<lparr>session_active = True, grace_period_end = None\<rparr> w' \<and>
          disconnect_reported w')"
proof -
  let ?w = "snd (start_logging_session example_decode short_capture ''/dev/ttyACM0''
          (print ''[INFO] Device detected. Starting new logging session.'' empty_world))"
  have returned: "fst (start_logging_session example_decode short_capture ''/dev/ttyACM0''
          (print ''[INFO] Device detected. Starting new logging session.'' empty_world)) = Returned"
    by (simp add: start_logging_session_def short_capture_def quiet_def Let_def drain_def
          POST_DISCONNECT_FLUSH_DELAY_def)
  have first: "tick example_decode (present_at 0) \<lparr>session_active = False, grace_period_end = None\<rparr>
                 empty_world = Completed \<lparr>session_active = True, grace_period_end = None\<rparr> ?w"
    by (simp add: tick_def present_at_def example_comports device_present_def
          after_capture_returned [OF returned])
  have run: "main example_decode [present_at 0] empty_world =
               Completed \<lparr>session_active = True, grace_period_end = None\<rparr> ?w"
    by (simp add: main_def first)
  have reported: "disconnect_reported ?w"
    by (simp add: disconnect_reported_def start_logging_session_def short_capture_def quiet_def
          Let_def drain_def POST_DISCONNECT_FLUSH_DELAY_def print_def empty_world_def)
  have located: "device_located (present_at 0)"
    by (simp add: device_located_def present_at_def example_comports truthy_str_def)
  have loop: "returned_by_loop example_decode (capture (present_at 0))"
    by (simp add: returned_by_loop_def present_at_def short_capture_def quiet_def drain_def
          POST_DISCONNECT_FLUSH_DELAY_def)
  from run reported located loop show ?thesis by blast
qed

section \<open>Lemmas on the capture loop\<close>

lemma drain_no_failure:
  "no_failure sn \<Longrightarrow>
   drain dec sn s = Inr (if rx s = [] then s else s\<lparr>rx := [], log := log s @ dec (rx s)\<rparr>)"
  by (simp add: no_failure_def drain_def)

lemma drain_log: "drain dec sn s = Inr s' \<Longrightarrow> \<exists>tx. log s' = log s @ tx"
  by (auto simp: drain_def split: option.splits if_splits)

lemma flush_window_log: "\<exists>tx. log (snd (flush_window dec t0 xs s)) = log s @ tx"
proof (induction xs arbitrary: s)
  case Nil
  show ?case by simp
next
  case (Cons sn xs)
  show ?case
  proof (cases "clock sn - t0 < POST_DISCONNECT_FLUSH_DELAY")
    case False
    then show ?thesis by simp
  next
    case True
    show ?thesis
    proof (cases "drain dec sn (s\<lparr>rx := rx s @ arrived sn\<rparr>)")
      case (Inl e)
      with True show ?thesis by simp
    next
      case (Inr s')
      from drain_log [OF Inr] obtain t1 where t1: "log s' = log s @ t1" by auto
      from Cons [of s'] obtain t2 where
        "log (snd (flush_window dec t0 xs s')) = log s' @ t2" by blast
      with True Inr t1 show ?thesis by simp
    qed
  qed
qed

lemma flush_window_ends:
  "\<exists>sn \<in> set xs. \<not> clock sn - t0 < POST_DISCONNECT_FLUSH_DELAY \<Longrightarrow>
   fst (flush_window dec t0 xs s) \<noteq> Running"
proof (induction xs arbitrary: s)
  case Nil
  then show ?case by simp
next
  case (Cons sn xs)
  show ?case
  proof (cases "clock sn - t0 < POST_DISCONNECT_FLUSH_DELAY")
    case False
    then show ?thesis by simp
  next
    case True
    with Cons.prems have later: "\<exists>sn \<in> set xs. \<not> clock sn - t0 < POST_DISCONNECT_FLUSH_DELAY"
      by auto
    show ?thesis
    proof (cases "drain dec sn (s\<lparr>rx := rx s @ arrived sn\<rparr>)")
      case (Inl e)
      with True show ?thesis by simp
    next
      case (Inr s')
      with True Cons.IH [OF later, of s'] show ?thesis by simp
    qed
  qed
qed







text \<open>A log file is never the issue log.\<close>

lemma log_filename_not_issue: "log_filename t \<noteq> ISSUE_LOG_FILE"
  by (simp add: log_filename_def LOG_DIR_def ISSUE_LOG_FILE_def)

lemma issue_not_log_filename: "ISSUE_LOG_FILE \<noteq> log_filename t"
  using log_filename_not_issue [of t] by simp

lemma on_exception_files:
  "p \<noteq> ISSUE_LOG_FILE \<Longrightarrow> files (snd (on_exception ienv e w)) p = files w p"
  by (simp add: on_exception_def log_issue_def print_def Let_def split: option.splits)

lemma on_exception_ends: "fst (on_exception ienv e w) \<noteq> Running"
  by (simp add: on_exception_def log_issue_def Let_def split: option.splits)


text \<open>
  Once both handles are open, the log file ends up holding what the loop of this
  invocation wrote, whatever the file held before.
\<close>

lemma log_file_content:
  assumes "serial_open_err env = None" and "file_open_err env = None"
  shows "log_file_after env (start_logging_session dec env port_name w) =
           Some (log (snd (capture_loop dec (script env) \<lparr>rx = [], log = [], out = []\<rparr>)))"
proof -
  obtain r s where rs: "capture_loop dec (script env) \<lparr>rx = [], log = [], out = []\<rparr> = (r, s)"
    by (cases "capture_loop dec (script env) \<lparr>rx = [], log = [], out = []\<rparr>")
  show ?thesis
    using assms rs
    by (cases r)
       (simp_all add: log_file_after_def start_logging_session_def Let_def
          on_exception_files log_filename_not_issue)
qed

lemma example_file_name:
  "log_filename example_time = ''/home/roman/data_logger/LOGS/log_2025-05-18_12-00-07.txt''"
  by (simp add: log_filename_def LOG_DIR_def strftime_file_def two_def zfill_def example_time_def
        digits.simps digit_char_def)

lemma same_second_filename: "same_second a b \<Longrightarrow> log_filename a = log_filename b"
  by (simp add: same_second_def log_filename_def strftime_file_def)

lemmas capture_eval =
  start_logging_session_def capture_loop.simps flush_window.simps drain_def Let_def
  on_exception_def log_issue_def print_def short_capture_def quiet_def
  POST_DISCONNECT_FLUSH_DELAY_def log_file_after_def example_decode_def empty_world_def
  log_filename_not_issue issue_not_log_filename


section \<open>The capture loop\<close>

text \<open>
  While the device path exists and nothing fails, each pass empties the input buffer, and
  the loop goes on with the text written so far.
\<close>

lemma capture_loop_steady_log:
  "\<forall>sn \<in> set pre. steady sn \<Longrightarrow>
   capture_loop dec (pre @ rest) \<lparr>rx = [], log = l, out = c\<rparr> =
     capture_loop dec rest
       \<lparr>rx = [], log = log (snd (capture_loop dec pre \<lparr>rx = [], log = l, out = c\<rparr>)), out = c\<rparr>"
proof (induction pre arbitrary: l)
  case Nil
  show ?case by simp
next
  case (Cons sn pre)
  then have sn: "path_exists sn" "no_failure sn" and rest: "\<forall>sn \<in> set pre. steady sn"
    by (simp_all add: steady_def)
  define t where "t = (if arrived sn = [] then [] else dec (arrived sn))"
  have step: "capture_loop dec (sn # xs) \<lparr>rx = [], log = l, out = c\<rparr> =
              capture_loop dec xs \<lparr>rx = [], log = l @ t, out = c\<rparr>" for xs
    using sn by (simp add: drain_no_failure t_def)
  from step [of "pre @ rest"] step [of pre] Cons.IH [OF rest, of "l @ t"]
  show ?case by simp
qed

lemma drain_fails:
  "in_waiting_err sn \<noteq> None \<or> (rx s \<noteq> [] \<and> read_err sn \<noteq> None) \<Longrightarrow>
   \<exists>e. drain dec sn s = Inl e"
  by (auto simp: drain_def split: option.splits)

text \<open>
  C5, as the code has it. Let both handles open, let the loop run without failure up to the
  pass that finds the device path gone, with bytes in the input buffer at that moment.
  \<^item> If the next clock reading is less than \<open>POST_DISCONNECT_FLUSH_DELAY\<close> after the reading
    taken at detection, and the query, read and write of that first pass of the flush
    window do not fail, the bytes that were in the input buffer at detection are read,
    decoded and written to the log file of the invocation, in one chunk with those that
    arrived since, whatever happens afterwards.
  \<^item> When a later clock reading is past the window the invocation has ended.
  \<^item> If instead that next clock reading is already past the window, or the query or the
    read of the first pass of the flush window raises, the invocation ends and the log
    file holds what the passes before detection wrote, and none of those bytes.
\<close>

theorem C5_flush_window_completeness:
  assumes "serial_open_err env = None" and "file_open_err env = None"
    and "script env = pre @ det # first # rest"
    and "\<forall>sn \<in> set pre. steady sn"
    and "\<not> path_exists det"
    and "arrived det \<noteq> []"
  shows "(clock first - clock det < POST_DISCONNECT_FLUSH_DELAY \<and> no_failure first \<longrightarrow>
           (\<exists>before after.
              log_file_after env (start_logging_session dec env port_name w) =
                Some (before @ dec (arrived det @ arrived first) @ after))) \<and>
         ((\<exists>sn \<in> set rest. past_window det sn) \<longrightarrow>
           fst (start_logging_session dec env port_name w) \<noteq> Running) \<and>
         (past_window det first \<or> in_waiting_err first \<noteq> None \<or> read_err first \<noteq> None \<longrightarrow>
           fst (start_logging_session dec env port_name w) \<noteq> Running \<and>
           log_file_after env (start_logging_session dec env port_name w) =
             Some (log (snd (capture_loop dec pre \<lparr>rx = [], log = [], out = []\<rparr>))))"
proof -
  let ?init = "\<lparr>rx = [], log = [], out = []\<rparr>"
  define before where "before = log (snd (capture_loop dec pre ?init))"
  define s0 where
    "s0 = \<lparr>rx = arrived det, log = before,
           out = [''[INFO] Device disconnected. Continuing to read for final data...'']\<rparr>"
  from capture_loop_steady_log [OF assms(4), of dec "det # first # rest" "[]" "[]"] assms(3)
  have "capture_loop dec (script env) ?init =
        capture_loop dec (det # first # rest) \<lparr>rx = [], log = before, out = []\<rparr>"
    by (simp add: before_def)
  with assms(5) have loop: "capture_loop dec (script env) ?init =
        flush_window dec (clock det) (first # rest) s0"
    by (simp add: s0_def)
  have holds: "log_file_after env (start_logging_session dec env port_name w) =
        Some (log (snd (flush_window dec (clock det) (first # rest) s0)))"
    using log_file_content [OF assms(1,2), of dec port_name w] loop by simp
  have running: "fst (start_logging_session dec env port_name w) \<noteq> Running"
    if "fst (flush_window dec (clock det) (first # rest) s0) \<noteq> Running"
    using that assms(1,2) loop
    by (cases "flush_window dec (clock det) (first # rest) s0")
       (auto simp: start_logging_session_def Let_def on_exception_ends split: loop_end.splits)
  have written: "\<exists>before after.
           log_file_after env (start_logging_session dec env port_name w) =
             Some (before @ dec (arrived det @ arrived first) @ after)"
    if h: "clock first - clock det < POST_DISCONNECT_FLUSH_DELAY \<and> no_failure first"
  proof -
    define s1 where
      "s1 = \<lparr>rx = [], log = before @ dec (arrived det @ arrived first),
             out = [''[INFO] Device disconnected. Continuing to read for final data...'']\<rparr>"
    have window: "flush_window dec (clock det) (first # rest) s0 =
                  flush_window dec (clock det) rest s1"
      using h assms(6) by (simp add: drain_no_failure s0_def s1_def)
    from flush_window_log [of dec "clock det" rest s1] obtain after where
      "log (snd (flush_window dec (clock det) rest s1)) = log s1 @ after" by blast
    with holds window
    have "log_file_after env (start_logging_session dec env port_name w) =
            Some (before @ dec (arrived det @ arrived first) @ after)"
      by (simp add: s1_def)
    then show ?thesis by blast
  qed
  have ended: "fst (start_logging_session dec env port_name w) \<noteq> Running"
    if "\<exists>sn \<in> set rest. past_window det sn"
  proof -
    from that have "\<exists>sn \<in> set (first # rest). \<not> clock sn - clock det < POST_DISCONNECT_FLUSH_DELAY"
      by (auto simp: past_window_def)
    from flush_window_ends [OF this, of dec s0] show ?thesis by (rule running)
  qed
  have lost: "fst (start_logging_session dec env port_name w) \<noteq> Running \<and>
           log_file_after env (start_logging_session dec env port_name w) = Some before"
    if h: "past_window det first \<or> in_waiting_err first \<noteq> None \<or> read_err first \<noteq> None"
  proof (cases "clock first - clock det < POST_DISCONNECT_FLUSH_DELAY")
    case False
    then have "flush_window dec (clock det) (first # rest) s0 =
      (Returned, s0\<lparr>out := out s0 @ [''[INFO] Final read window expired. Closing logging session.'']\<rparr>)"
      by simp
    with holds running show ?thesis by (simp add: s0_def)
  next
    case True
    with h have "in_waiting_err first \<noteq> None \<or> read_err first \<noteq> None"
      by (simp add: past_window_def)
    with assms(6) have "in_waiting_err first \<noteq> None \<or>
        (rx (s0\<lparr>rx := rx s0 @ arrived first\<rparr>) \<noteq> [] \<and> read_err first \<noteq> None)"
      by (simp add: s0_def)
    from drain_fails [OF this, of dec] obtain e where
      "drain dec first (s0\<lparr>rx := rx s0 @ arrived first\<rparr>) = Inl e" by blast
    with True have "flush_window dec (clock det) (first # rest) s0 = (Raised e, s0)" by simp
    with holds running show ?thesis by (simp add: s0_def)
  qed
  from written ended lost show ?thesis unfolding before_def by blast
qed

theorem C5_flush_window_completeness_witness:
  "log_file_after flushed_capture
     (start_logging_session example_decode flushed_capture ''/dev/ttyACM0'' empty_world) =
     Some ''BA'' \<and>
   fst (start_logging_session example_decode flushed_capture ''/dev/ttyACM0'' empty_world) =
     Returned \<and>
   (\<exists>before after.
      log_file_after flushed_capture
        (start_logging_session example_decode flushed_capture ''/dev/ttyACM0'' empty_world) =
        Some (before @ example_decode ([0x41] @ []) @ after)) \<and>
   log_file_after unplugged_read_capture
     (start_logging_session example_decode unplugged_read_capture ''/dev/ttyACM0'' empty_world) =
     Some []"
proof -
  let ?pre = "[quiet\<lparr>arrived := [0x42]\<rparr>]"
  let ?det = "quiet\<lparr>path_exists := False, clock := 5, arrived := [0x41]\<rparr>"
  let ?first = "quiet\<lparr>clock := 5\<rparr>"
  let ?rest = "[quiet\<lparr>clock := 6, arrived := [0x42]\<rparr>]"
  let ?bad = "quiet\<lparr>clock := 5, read_err :=
                Some (SerialException ''device reports readiness to read but returned no data'')\<rparr>"
  have a: "serial_open_err flushed_capture = None" "file_open_err flushed_capture = None"
    by (simp_all add: flushed_capture_def short_capture_def)
  have b: "script flushed_capture = ?pre @ ?det # ?first # ?rest"
    by (simp add: flushed_capture_def)
  have c: "\<forall>sn \<in> set ?pre. steady sn"
    by (simp add: steady_def no_failure_def quiet_def)
  have d: "\<not> path_exists ?det" by simp
  have e: "clock ?first - clock ?det < POST_DISCONNECT_FLUSH_DELAY \<and> no_failure ?first"
    by (simp add: POST_DISCONNECT_FLUSH_DELAY_def no_failure_def quiet_def)
  have g: "arrived ?det \<noteq> []" by simp
  have a': "serial_open_err unplugged_read_capture = None"
    "file_open_err unplugged_read_capture = None"
    by (simp_all add: unplugged_read_capture_def short_capture_def)
  have b': "script unplugged_read_capture = [] @ ?det # ?bad # [quiet\<lparr>clock := 6\<rparr>]"
    by (simp add: unplugged_read_capture_def)
  have c': "\<forall>sn \<in> set []. steady sn" by simp
  have e': "past_window ?det ?bad \<or> in_waiting_err ?bad \<noteq> None \<or> read_err ?bad \<noteq> None"
    by simp
  have content: "log_file_after flushed_capture
     (start_logging_session example_decode flushed_capture ''/dev/ttyACM0'' empty_world) =
     Some ''BA''"
    by (simp add: flushed_capture_def capture_eval)
  have ended: "fst (start_logging_session example_decode flushed_capture ''/dev/ttyACM0''
                 empty_world) = Returned"
    by (simp add: flushed_capture_def capture_eval)
  from C5_flush_window_completeness [OF a b c d g, of example_decode "''/dev/ttyACM0''" empty_world,
      THEN conjunct1, rule_format, OF e]
    C5_flush_window_completeness [OF a' b' c' d g, of example_decode "''/dev/ttyACM0''" empty_world,
      THEN conjunct2, THEN conjunct2, rule_format, OF e', THEN conjunct2]
    content ended
  show ?thesis by (simp add: quiet_def)
qed

theorem C5_flush_window_counterexample:
  "fst (start_logging_session example_decode unplugged_capture ''/dev/ttyACM0'' empty_world) =
     Returned \<and>
   log_file_after unplugged_capture
     (start_logging_session example_decode unplugged_capture ''/dev/ttyACM0'' empty_world) =
     Some [] \<and>
   fst (start_logging_session example_decode clock_step_capture ''/dev/ttyACM0'' empty_world) =
     Returned \<and>
   log_file_after clock_step_capture
     (start_logging_session example_decode clock_step_capture ''/dev/ttyACM0'' empty_world) =
     Some [] \<and>
   fst (start_logging_session example_decode unplugged_read_capture ''/dev/ttyACM0'' empty_world) =
     Returned \<and>
   log_file_after unplugged_read_capture
     (start_logging_session example_decode unplugged_read_capture ''/dev/ttyACM0'' empty_world) =
     Some []"
  by (simp add: unplugged_capture_def clock_step_capture_def unplugged_read_capture_def
        capture_eval)






lemma log_filename_microsecond [simp]: "log_filename (t\<lparr>microsecond := u\<rparr>) = log_filename t"
  by (simp add: log_filename_def strftime_file_def)








text \<open>
  C10, as the code has it. The name of the log file is made from the start time of the
  invocation down to the second, so two invocations that start within the same second
  have the same path. The file is opened for writing, which empties it, after the serial
  channel has been opened.
  \<^item> When both open in the later invocation, the file afterwards holds what the later
    invocation wrote and nothing of what the earlier one wrote.
  \<^item> When the serial channel does not open in the later invocation, the file is not
    opened and holds afterwards what it held after the earlier invocation.
\<close>

theorem C10_same_second_overwrites:
  assumes "same_second (started earlier) (started later)"
  shows "log_filename (started later) = log_filename (started earlier) \<and>
         (serial_open_err later = None \<and> file_open_err later = None \<longrightarrow>
            log_file_after earlier
              (start_logging_session dec later port2
                 (snd (start_logging_session dec earlier port1 w))) =
            Some (log (snd (capture_loop dec (script later) \<lparr>rx = [], log = [], out = []\<rparr>)))) \<and>
         (serial_open_err later \<noteq> None \<longrightarrow>
            log_file_after earlier
              (start_logging_session dec later port2
                 (snd (start_logging_session dec earlier port1 w))) =
            log_file_after earlier (start_logging_session dec earlier port1 w))"
proof -
  let ?w = "snd (start_logging_session dec earlier port1 w)"
  from assms have name: "log_filename (started later) = log_filename (started earlier)"
    by (simp add: same_second_filename)
  then have same: "log_file_after earlier (start_logging_session dec later port2 ?w) =
                   log_file_after later (start_logging_session dec later port2 ?w)"
    by (simp add: log_file_after_def)
  have erased: "log_file_after earlier (start_logging_session dec later port2 ?w) =
         Some (log (snd (capture_loop dec (script later) \<lparr>rx = [], log = [], out = []\<rparr>)))"
    if "serial_open_err later = None \<and> file_open_err later = None"
    using that same log_file_content [of later dec port2 ?w] by simp
  have kept: "log_file_after earlier (start_logging_session dec later port2 ?w) =
              log_file_after earlier (start_logging_session dec earlier port1 w)"
    if "serial_open_err later \<noteq> None"
  proof -
    from that obtain e where "serial_open_err later = Some e" by auto
    then have "start_logging_session dec later port2 ?w =
               on_exception (issue later) e
                 (print (''[INFO] Logging to '' @ log_filename (started later)) ?w)"
      by (simp add: start_logging_session_def)
    then have "files (snd (start_logging_session dec later port2 ?w))
                 (log_filename (started earlier)) = files ?w (log_filename (started earlier))"
      by (simp add: on_exception_files log_filename_not_issue print_def)
    then show ?thesis by (simp add: log_file_after_def)
  qed
  from name erased kept show ?thesis by blast
qed

theorem C10_same_second_overwrites_witness:
  "same_second (started read_failure_capture) (started second_capture) \<and>
   log_filename (started second_capture) = log_filename (started read_failure_capture) \<and>
   log_file_after read_failure_capture
     (start_logging_session example_decode read_failure_capture ''/dev/ttyACM0'' empty_world) =
     Some ''A'' \<and>
   log_file_after read_failure_capture
     (start_logging_session example_decode second_capture ''/dev/ttyACM0''
        (snd (start_logging_session example_decode read_failure_capture ''/dev/ttyACM0''
           empty_world))) = Some ''B'' \<and>
   same_second (started read_failure_capture) (started busy_capture) \<and>
   serial_open_err busy_capture \<noteq> None \<and>
   log_file_after read_failure_capture
     (start_logging_session example_decode busy_capture ''/dev/ttyACM0''
        (snd (start_logging_session example_decode read_failure_capture ''/dev/ttyACM0''
           empty_world))) = Some ''A''"
proof -
  have a: "same_second (started read_failure_capture) (started second_capture)"
    by (simp add: same_second_def read_failure_capture_def second_capture_def short_capture_def)
  have b: "serial_open_err second_capture = None \<and> file_open_err second_capture = None"
    by (simp add: second_capture_def short_capture_def)
  have c: "log (snd (capture_loop example_decode (script second_capture)
             \<lparr>rx = [], log = [], out = []\<rparr>)) = ''B''"
    by (simp add: second_capture_def capture_eval)
  have d: "log_file_after read_failure_capture
     (start_logging_session example_decode read_failure_capture ''/dev/ttyACM0'' empty_world) =
     Some ''A''"
    by (simp add: read_failure_capture_def capture_eval)
  have a': "same_second (started read_failure_capture) (started busy_capture)"
    by (simp add: same_second_def read_failure_capture_def busy_capture_def short_capture_def)
  have b': "serial_open_err busy_capture \<noteq> None"
    by (simp add: busy_capture_def)
  note both = C10_same_second_overwrites [OF a, of example_decode "''/dev/ttyACM0''"
      "''/dev/ttyACM0''" empty_world]
  note busy = C10_same_second_overwrites [OF a', of example_decode "''/dev/ttyACM0''"
      "''/dev/ttyACM0''" empty_world]
  from a a' b' d c both [THEN conjunct1] both [THEN conjunct2, THEN conjunct1, rule_format, OF b]
    busy [THEN conjunct2, THEN conjunct2, rule_format, OF b']
  show ?thesis by simp
qed

theorem C10_same_second_counterexample:
  "same_second (started read_failure_capture) (started busy_capture) \<and>
   log_filename (started busy_capture) = log_filename (started read_failure_capture) \<and>
   log_file_after read_failure_capture
     (start_logging_session example_decode read_failure_capture ''/dev/ttyACM0'' empty_world) =
     Some ''A'' \<and>
   fst (start_logging_session example_decode busy_capture ''/dev/ttyACM0''
        (snd (start_logging_session example_decode read_failure_capture ''/dev/ttyACM0''
           empty_world))) = Returned \<and>
   log_file_after read_failure_capture
     (start_logging_session example_decode busy_capture ''/dev/ttyACM0''
        (snd (start_logging_session example_decode read_failure_capture ''/dev/ttyACM0''
           empty_world))) = Some ''A''"
  by (simp add: same_second_def read_failure_capture_def busy_capture_def capture_eval)

end
